theory Spec2Isabelle
  imports Main "HOL-Library.Word"
begin

section \<open>The Fortran subroutines of the notebooks\<close>

text \<open>
  The notebooks write Fortran files, compile them into a shared object with
  \<^verbatim>\<open>gfortran -shared -fpic\<close> and call the subroutines through ctypes. Every Fortran
  argument is passed by reference, and a subroutine returns no value: what comes back
  is the storage its arguments refer to. A routine is modelled as a function from the
  referenced storage before the call to the referenced storage after it.

  The element type \<open>real\<close> is kept abstract: any type with a multiplication and a
  unit, so that \<open>x ^ 2\<close> is the source's \<open>a**2\<close> in whatever arithmetic the
  processor gives \<open>real\<close>. The default \<open>integer\<close> is a 32-bit word.

  The scalar version of \<^verbatim>\<open>subroutines.f90\<close>:
  \<^verbatim>\<open>
  SUBROUTINE square(a)
      IMPLICIT NONE
      real :: a
      a = a**2
  END SUBROUTINE square
  \<close>
  Its companion \<open>square_root\<close> (\<open>b = SQRT(b)\<close>) has no counterpart on an abstract
  element type and is not modelled.
\<close>

definition square_scalar :: "'a::power \<Rightarrow> 'a" where
  "square_scalar a = a ^ 2"

text \<open>
  The array version of \<^verbatim>\<open>subroutines.f90\<close>:
  \<^verbatim>\<open>
  SUBROUTINE square(a,ij,ik)
      IMPLICIT NONE
      integer :: ij,ik
      real, dimension(ij,ik) :: a
      a = a**2
  END SUBROUTINE square
  \<close>
  The dummy array \<open>a\<close> is the storage that starts at the address handed in, read as
  \<open>ij\<close> by \<open>ik\<close> elements in column-major order; the routine knows nothing else
  about the buffer.
\<close>

type_synonym c_int = "32 word"

text \<open>
  The extent of a dimension declared \<open>1:n\<close>: an upper bound below the lower bound
  declares a dimension of size zero.
\<close>

definition extent :: "c_int \<Rightarrow> nat" where
  "extent n = nat (sint n)"

definition array_size :: "c_int \<Rightarrow> c_int \<Rightarrow> nat" where
  "array_size ij ik = extent ij * extent ik"

text \<open>
  Where element \<open>a(i,j)\<close> of \<open>dimension(ij,ik)\<close> lies in the storage sequence, counted
  in elements from the start of the buffer: the first subscript varies fastest.
\<close>

definition subscript :: "c_int \<Rightarrow> nat \<Rightarrow> nat \<Rightarrow> nat" where
  "subscript ij i j = (i - 1) + (j - 1) * extent ij"

text \<open>
  The whole-array assignment \<open>a = a**2\<close> replaces each of the \<open>ij * ik\<close> elements of
  the dummy array by its second power. Storage of the buffer behind the dummy array
  is not touched; \<open>ij\<close> and \<open>ik\<close> are only read. When the buffer handed in is shorter
  than \<open>ij * ik\<close> elements the routine runs over storage that is not the buffer's,
  which is \<open>None\<close> here.
\<close>

definition square :: "'a::power list \<Rightarrow> c_int \<Rightarrow> c_int \<Rightarrow> ('a list \<times> c_int \<times> c_int) option" where
  "square a ij ik =
     (let n = array_size ij ik
      in if length a < n then None
         else Some (map (\<lambda>x. x ^ 2) (take n a) @ drop n a, ij, ik))"

text \<open>
  \<^verbatim>\<open>wrappers.f90\<close>:
  \<^verbatim>\<open>
  SUBROUTINE wrapper_square(a,ij,ik) bind(c, name='wrapper_square')
      use iso_c_binding, only: c_int, c_float
      IMPLICIT NONE
      integer(c_int) :: ij,ik
      real(c_float), dimension(ij,ik) :: a
      call square(a,ij,ik)
  END SUBROUTINE wrapper_square
  \<close>
\<close>

definition wrapper_square :: "'a::power list \<Rightarrow> c_int \<Rightarrow> c_int \<Rightarrow> ('a list \<times> c_int \<times> c_int) option" where
  "wrapper_square a ij ik = square a ij ik"

section \<open>Boxed scalars: the ctypes cells\<close>

text \<open>
  \<^verbatim>\<open>
  python_float = 4.0
  ctypes_float = ctypes.c_float(python_float)
  ctypes_pointer = ctypes.pointer(ctypes_float)
  _ = fortran_routines.square_(ctypes_pointer)
  print(ctypes_pointer.contents, ':', python_float ** 2)
  \<close>
  A Python name refers to an object. The objects live in a store, a list indexed by
  address; creating an object appends it. A Python float is immutable and holds a
  value of the managed type \<open>'d\<close>; a \<open>c_float\<close> instance is a mutable cell holding a
  value of the native type \<open>'s\<close>; a ctypes pointer holds the address of the instance
  it was made from.
\<close>

datatype pyerror = TypeError | ArgumentError | AttributeError string | NoSuchObject

datatype ('d, 's) pyobject = PyFloat 'd | C_float 's | Pointer nat

type_synonym ('d, 's) heap = "('d, 's) pyobject list"

text \<open>
  An address that names no object is not something a Python program can hold; the
  operations answer \<open>NoSuchObject\<close> there.
\<close>

definition deref :: "('d, 's) heap \<Rightarrow> nat \<Rightarrow> ('d, 's) pyobject option" where
  "deref h x = (if x < length h then Some (h ! x) else None)"

text \<open>
  \<open>ctypes.c_float(x)\<close>: a new cell, initialised with the value of the float that \<open>x\<close>
  names, converted to the native type by \<open>conv\<close>.
\<close>

definition c_float :: "('d \<Rightarrow> 's) \<Rightarrow> ('d, 's) heap \<Rightarrow> nat \<Rightarrow> pyerror + (nat \<times> ('d, 's) heap)" where
  "c_float conv h x =
     (case deref h x of
        None \<Rightarrow> Inl NoSuchObject
      | Some (PyFloat v) \<Rightarrow> Inr (length h, h @ [C_float (conv v)])
      | Some _ \<Rightarrow> Inl TypeError)"

text \<open>\<open>ctypes.pointer(b)\<close>: a new pointer to the ctypes instance \<open>b\<close>.\<close>

definition pointer :: "('d, 's) heap \<Rightarrow> nat \<Rightarrow> pyerror + (nat \<times> ('d, 's) heap)" where
  "pointer h b =
     (case deref h b of
        None \<Rightarrow> Inl NoSuchObject
      | Some (PyFloat _) \<Rightarrow> Inl TypeError
      | Some _ \<Rightarrow> Inr (length h, h @ [Pointer b]))"

text \<open>\<open>p.contents\<close>: the instance the pointer refers to; \<open>b.value\<close>: what the cell holds.\<close>

definition contents :: "('d, 's) heap \<Rightarrow> nat \<Rightarrow> pyerror + nat" where
  "contents h p =
     (case deref h p of
        None \<Rightarrow> Inl NoSuchObject
      | Some (Pointer b) \<Rightarrow> Inr b
      | Some _ \<Rightarrow> Inl (AttributeError ''contents''))"

definition c_value :: "('d, 's) heap \<Rightarrow> nat \<Rightarrow> pyerror + 's" where
  "c_value h b =
     (case deref h b of
        None \<Rightarrow> Inl NoSuchObject
      | Some (C_float v) \<Rightarrow> Inr v
      | Some _ \<Rightarrow> Inl (AttributeError ''value''))"

text \<open>
  The call \<open>routine(p)\<close> of a native routine \<open>f\<close> that takes one \<open>real\<close> by reference,
  with a pointer to a \<open>c_float\<close> cell as its argument: the routine works on the cell
  the pointer refers to, in place. Any other argument is refused here with
  \<open>ArgumentError\<close>; the notebooks make no such call. The integer that ctypes
  hands back from the call, which the notebooks bind to \<open>_\<close> or discard, is not
  modelled.
\<close>

definition foreign_call :: "('s \<Rightarrow> 's) \<Rightarrow> ('d, 's) heap \<Rightarrow> nat \<Rightarrow> pyerror + ('d, 's) heap" where
  "foreign_call f h p =
     (case deref h p of
        None \<Rightarrow> Inl NoSuchObject
      | Some (Pointer b) \<Rightarrow>
          (case deref h b of
             Some (C_float v) \<Rightarrow> Inr (h[b := C_float (f v)])
           | _ \<Rightarrow> Inl ArgumentError)
      | Some _ \<Rightarrow> Inl ArgumentError)"

section \<open>Arrays and their memory order\<close>

text \<open>
  Modelled from the spec: the array descriptor (a shape, a memory order flag and a
  buffer) and the conversion between row-major and column-major order. The notebooks
  only call \<^verbatim>\<open>np.asfortranarray(target_array, dtype=np.float32)\<close>; numpy's code is
  not part of the repository, and the conversion back to row-major order is not
  made anywhere in it. In row-major order the last index varies fastest in the
  buffer, in column-major order the first.
\<close>

datatype layout = C_CONTIGUOUS | F_CONTIGUOUS

record 'a ndarray =
  shape :: "nat list"
  flags :: layout
  data :: "'a list"

text \<open>The position in the buffer of the element at a multi-index, and back.\<close>

fun ravel_multi_index :: "layout \<Rightarrow> nat list \<Rightarrow> nat list \<Rightarrow> nat" where
  "ravel_multi_index C_CONTIGUOUS (s # ss) (i # is) =
     i * prod_list ss + ravel_multi_index C_CONTIGUOUS ss is"
| "ravel_multi_index F_CONTIGUOUS (s # ss) (i # is) =
     i + s * ravel_multi_index F_CONTIGUOUS ss is"
| "ravel_multi_index _ _ _ = 0"

fun unravel_index :: "layout \<Rightarrow> nat list \<Rightarrow> nat \<Rightarrow> nat list" where
  "unravel_index C_CONTIGUOUS (s # ss) k =
     (k div prod_list ss) # unravel_index C_CONTIGUOUS ss (k mod prod_list ss)"
| "unravel_index F_CONTIGUOUS (s # ss) k =
     (k mod s) # unravel_index F_CONTIGUOUS ss (k div s)"
| "unravel_index _ [] k = []"

definition in_bounds :: "nat list \<Rightarrow> nat list \<Rightarrow> bool" where
  "in_bounds s idx = list_all2 (\<lambda>i n. i < n) idx s"

definition item :: "'a ndarray \<Rightarrow> nat list \<Rightarrow> 'a" where
  "item a idx = data a ! ravel_multi_index (flags a) (shape a) idx"

text \<open>
  Modelled from the spec: a copy of the array in the given memory order, each element
  passed through the element type conversion \<open>dtype\<close>. Position \<open>k\<close> of the new
  buffer holds the element whose multi-index lies at \<open>k\<close> in the new order.
\<close>

definition relayout :: "layout \<Rightarrow> ('a \<Rightarrow> 'b) \<Rightarrow> 'a ndarray \<Rightarrow> 'b ndarray" where
  "relayout ord dtype a =
     \<lparr>shape = shape a, flags = ord,
      data = map (\<lambda>k. dtype (item a (unravel_index ord (shape a) k)))
               [0..<prod_list (shape a)]\<rparr>"

text \<open>
  Modelled from the spec: numpy's \<open>asfortranarray(a, dtype)\<close>, the conversion to
  column-major order that the notebooks call, and \<open>ascontiguousarray(a, dtype)\<close>,
  the conversion to row-major order, which they never call.
\<close>

definition asfortranarray :: "('a \<Rightarrow> 'b) \<Rightarrow> 'a ndarray \<Rightarrow> 'b ndarray" where
  "asfortranarray dtype a = relayout F_CONTIGUOUS dtype a"

definition ascontiguousarray :: "('a \<Rightarrow> 'b) \<Rightarrow> 'a ndarray \<Rightarrow> 'b ndarray" where
  "ascontiguousarray dtype a = relayout C_CONTIGUOUS dtype a"

section \<open>The array routine\<close>

lemma subscript_in_array:
  assumes "1 \<le> i" "i \<le> extent ij" "1 \<le> j" "j \<le> extent ik"
  shows "subscript ij i j < array_size ij ik"
proof -
  have "(i - 1) + (j - 1) * extent ij < extent ij + (j - 1) * extent ij"
    using assms by simp
  also have "\<dots> = j * extent ij"
    using assms by (cases j) simp_all
  also have "\<dots> \<le> extent ik * extent ij"
    using assms by simp
  finally show ?thesis
    by (simp add: subscript_def array_size_def mult.commute)
qed

text \<open>
  C1. For every buffer \<open>a\<close> that holds an \<open>ij\<close> by \<open>ik\<close> array (at its start, when
  the buffer is longer), \<open>square(a, ij, ik)\<close> returns with \<open>ij\<close>, \<open>ik\<close> and the
  buffer's length as they were, and every position \<open>(i, j)\<close> with \<open>1 \<le> i \<le> ij\<close> and
  \<open>1 \<le> j \<le> ik\<close> lies in the buffer and holds the second power of what it held
  before the call.
\<close>

theorem square_keeps_shape_squares_elements:
  assumes "array_size ij ik \<le> length a"
  shows "\<exists>a'. square a ij ik = Some (a', ij, ik) \<and> length a' = length a \<and>
           (\<forall>i j. 1 \<le> i \<and> i \<le> extent ij \<and> 1 \<le> j \<and> j \<le> extent ik \<longrightarrow>
              subscript ij i j < length a' \<and>
              a' ! subscript ij i j = (a ! subscript ij i j) ^ 2)"
proof -
  let ?n = "array_size ij ik"
  let ?a' = "map (\<lambda>x. x ^ 2) (take ?n a) @ drop ?n a"
  have ret: "square a ij ik = Some (?a', ij, ik)"
    using assms by (simp add: square_def Let_def)
  have len: "length ?a' = length a"
    using assms by simp
  have "subscript ij i j < length ?a' \<and> ?a' ! subscript ij i j = (a ! subscript ij i j) ^ 2"
    if "1 \<le> i \<and> i \<le> extent ij \<and> 1 \<le> j \<and> j \<le> extent ik" for i j
  proof -
    have k: "subscript ij i j < ?n"
      using that subscript_in_array [of i ij j ik] by simp
    then have "subscript ij i j < length (map (\<lambda>x. x ^ 2) (take ?n a))"
      using assms by simp
    then have "?a' ! subscript ij i j = map (\<lambda>x. x ^ 2) (take ?n a) ! subscript ij i j"
      by (simp only: nth_append if_True)
    also have "\<dots> = (a ! subscript ij i j) ^ 2"
      using k assms by simp
    finally show ?thesis
      using k assms len by simp
  qed
  with ret len show ?thesis
    by blast
qed

theorem square_keeps_shape_squares_elements_witness:
  "\<exists>a'. square [2, 3, 5, 7 :: int] 2 2 = Some (a', 2, 2) \<and> length a' = 4 \<and>
     a' ! subscript 2 1 2 = 25 \<and> a' ! subscript 2 2 1 = 9"
proof -
  have len: "array_size 2 2 \<le> length [2, 3, 5, 7 :: int]"
    by (simp add: array_size_def extent_def)
  have e: "extent 2 = 2"
    by (simp add: extent_def)
  from square_keeps_shape_squares_elements [OF len]
  obtain a' where r: "square [2, 3, 5, 7 :: int] 2 2 = Some (a', 2, 2)"
    and l: "length a' = length [2, 3, 5, 7 :: int]"
    and el: "\<And>i j. 1 \<le> i \<and> i \<le> extent 2 \<and> 1 \<le> j \<and> j \<le> extent 2 \<Longrightarrow>
               a' ! subscript 2 i j = ([2, 3, 5, 7 :: int] ! subscript 2 i j) ^ 2"
    by blast
  have "a' ! subscript 2 1 2 = 25"
    using el [of 1 2] e by (simp add: subscript_def)
  moreover have "a' ! subscript 2 2 1 = 9"
    using el [of 2 1] e by (simp add: subscript_def)
  ultimately show ?thesis
    using r l by simp
qed

text \<open>
  C10. On every buffer and every pair of dimension arguments, \<open>wrapper_square\<close>
  leaves the referenced storage exactly as \<open>square\<close> does: it forwards its three
  arguments unchanged.
\<close>

theorem wrapper_square_is_square:
  "wrapper_square a ij ik = square a ij ik"
  by (simp add: wrapper_square_def)

section \<open>The boxed scalar and the managed value\<close>

text \<open>
  C7. Let \<open>x\<close> name a Python float of value \<open>v\<close>. Boxing it with \<open>c_float\<close>, taking a
  pointer to the box and calling a native routine \<open>f\<close> on the pointer all succeed;
  afterwards \<open>x\<close> still names a float of value \<open>v\<close>, every object other than the box
  is as it was before the call, and the box holds \<open>f\<close> of the converted value.
\<close>

theorem boxed_call_keeps_managed_value:
  assumes "deref h x = Some (PyFloat v)"
  shows "\<exists>b h1 p h2 h3.
           c_float conv h x = Inr (b, h1) \<and> pointer h1 b = Inr (p, h2) \<and>
           foreign_call f h2 p = Inr h3 \<and>
           deref h3 x = Some (PyFloat v) \<and>
           length h3 = length h2 \<and>
           (\<forall>a. a < length h2 \<and> a \<noteq> b \<longrightarrow> h3 ! a = h2 ! a) \<and>
           contents h3 p = Inr b \<and> c_value h3 b = Inr (f (conv v))"
proof -
  from assms have x: "x < length h" and hx: "h ! x = PyFloat v"
    by (simp_all add: deref_def split: if_splits)
  let ?b = "length h"
  let ?h1 = "h @ [C_float (conv v)]"
  let ?p = "Suc (length h)"
  let ?h2 = "?h1 @ [Pointer ?b]"
  let ?h3 = "?h2[?b := C_float (f (conv v))]"
  have boxed: "c_float conv h x = Inr (?b, ?h1)"
    using assms by (simp add: c_float_def)
  have pointed: "pointer ?h1 ?b = Inr (?p, ?h2)"
    by (simp add: pointer_def deref_def)
  have called: "foreign_call f ?h2 ?p = Inr ?h3"
    by (simp add: foreign_call_def deref_def nth_append)
  have managed: "deref ?h3 x = Some (PyFloat v)"
    using x hx by (simp add: deref_def nth_append)
  have size: "length ?h3 = length ?h2"
    by simp
  have frame: "\<forall>a. a < length ?h2 \<and> a \<noteq> ?b \<longrightarrow> ?h3 ! a = ?h2 ! a"
    by (intro allI impI nth_list_update_neq) auto
  have target: "contents ?h3 ?p = Inr ?b"
    by (simp add: contents_def deref_def nth_append)
  have result: "c_value ?h3 ?b = Inr (f (conv v))"
    by (simp add: c_value_def deref_def nth_append)
  from boxed pointed called managed size frame target result show ?thesis
    by blast
qed

theorem boxed_call_keeps_managed_value_witness:
  "\<exists>b h1 p h2 h3.
     c_float (\<lambda>d. d) [PyFloat (4::int)] 0 = Inr (b, h1) \<and> pointer h1 b = Inr (p, h2) \<and>
     foreign_call square_scalar h2 p = Inr h3 \<and>
     deref h3 0 = Some (PyFloat 4) \<and> c_value h3 b = Inr 16"
proof -
  have "deref [PyFloat (4::int)] 0 = Some (PyFloat 4)"
    by (simp add: deref_def)
  from boxed_call_keeps_managed_value [OF this, of "\<lambda>d. d" square_scalar]
  show ?thesis
    by (simp add: square_scalar_def) blast
qed

section \<open>Memory order conversion\<close>

lemma unravel_in_bounds:
  "k < prod_list s \<Longrightarrow> in_bounds s (unravel_index ord s k)"
proof (induction ord s k rule: unravel_index.induct)
  case (1 s ss k)
  then have p: "0 < prod_list ss"
    by (cases "prod_list ss") auto
  have "k div prod_list ss < s"
    using 1(2) p by (simp add: less_mult_imp_div_less mult.commute)
  moreover have "k mod prod_list ss < prod_list ss"
    using p by simp
  ultimately show ?case
    using 1 by (simp add: in_bounds_def)
next
  case (2 s ss k)
  then have p: "0 < s"
    by (cases s) auto
  have "k div s < prod_list ss"
    using 2(2) p by (simp add: less_mult_imp_div_less mult.commute)
  then show ?case
    using 2 p by (simp add: in_bounds_def)
next
  case (3 uu k)
  then show ?case
    by (simp add: in_bounds_def)
qed

lemma ravel_less:
  "in_bounds s idx \<Longrightarrow> ravel_multi_index ord s idx < prod_list s"
proof (induction ord s idx rule: ravel_multi_index.induct)
  case (1 s ss i "is")
  then have i: "i < s" and r: "ravel_multi_index C_CONTIGUOUS ss is < prod_list ss"
    by (simp_all add: in_bounds_def)
  have "i * prod_list ss + ravel_multi_index C_CONTIGUOUS ss is < i * prod_list ss + prod_list ss"
    using r by simp
  also have "\<dots> = Suc i * prod_list ss"
    by simp
  also have "\<dots> \<le> s * prod_list ss"
    using i by (intro mult_le_mono1) simp
  finally show ?case
    by simp
next
  case (2 s ss i "is")
  then have i: "i < s" and r: "ravel_multi_index F_CONTIGUOUS ss is < prod_list ss"
    by (simp_all add: in_bounds_def)
  have "i + s * ravel_multi_index F_CONTIGUOUS ss is < s + s * ravel_multi_index F_CONTIGUOUS ss is"
    using i by simp
  also have "\<dots> = s * Suc (ravel_multi_index F_CONTIGUOUS ss is)"
    by simp
  also have "\<dots> \<le> s * prod_list ss"
    using r by (intro mult_le_mono2) simp
  finally show ?case
    by simp
qed (simp_all add: in_bounds_def)

lemma unravel_ravel:
  "in_bounds s idx \<Longrightarrow> unravel_index ord s (ravel_multi_index ord s idx) = idx"
proof (induction ord s idx rule: ravel_multi_index.induct)
  case (1 s ss i "is")
  then have b: "in_bounds ss is"
    by (simp add: in_bounds_def)
  have r: "ravel_multi_index C_CONTIGUOUS ss is < prod_list ss"
    using b by (rule ravel_less)
  show ?case
    using 1 b r by simp
next
  case (2 s ss i "is")
  then have b: "in_bounds ss is" and i: "i < s"
    by (simp_all add: in_bounds_def)
  show ?case
    using 2 b i by simp
qed (simp_all add: in_bounds_def)

lemma ravel_unravel:
  "k < prod_list s \<Longrightarrow> ravel_multi_index ord s (unravel_index ord s k) = k"
proof (induction ord s k rule: unravel_index.induct)
  case (1 s ss k)
  then have p: "0 < prod_list ss"
    by (cases "prod_list ss") auto
  then show ?case
    using 1 by simp
next
  case (2 s ss k)
  then have p: "0 < s"
    by (cases s) auto
  have "k div s < prod_list ss"
    using 2(2) p by (simp add: less_mult_imp_div_less mult.commute)
  then show ?case
    using 2 by simp
next
  case (3 uu k)
  then show ?case
    by simp
qed

lemma relayout_data_nth:
  assumes "k < prod_list (shape a)"
  shows "data (relayout ord dtype a) ! k = dtype (item a (unravel_index ord (shape a) k))"
  using assms by (simp add: relayout_def)

lemma item_relayout:
  assumes "in_bounds (shape a) idx"
  shows "item (relayout ord dtype a) idx = dtype (item a idx)"
proof -
  have "ravel_multi_index ord (shape a) idx < prod_list (shape a)"
    using assms by (rule ravel_less)
  then show ?thesis
    using assms by (simp add: item_def relayout_def unravel_ravel)
qed

text \<open>
  C9. For every row-major array whose buffer holds as many elements as its shape
  says, of any number of dimensions, converting to column-major order and back to
  row-major order with the element type unchanged gives the array back: the same
  shape, the same order flag and the same buffer, element for element.
\<close>

theorem order_round_trip:
  assumes "flags a = C_CONTIGUOUS" "length (data a) = prod_list (shape a)"
  shows "ascontiguousarray (\<lambda>x. x) (asfortranarray (\<lambda>x. x) a) = a"
proof -
  let ?f = "asfortranarray (\<lambda>x. x) a"
  let ?c = "ascontiguousarray (\<lambda>x. x) ?f"
  have sh: "shape ?f = shape a" "shape ?c = shape a" "flags ?c = C_CONTIGUOUS"
    by (simp_all add: asfortranarray_def ascontiguousarray_def relayout_def)
  have len: "length (data ?c) = length (data a)"
    using assms by (simp add: asfortranarray_def ascontiguousarray_def relayout_def)
  have "data ?c ! k = data a ! k" if "k < length (data a)" for k
  proof -
    have k: "k < prod_list (shape a)"
      using that assms by simp
    then have b: "in_bounds (shape a) (unravel_index C_CONTIGUOUS (shape a) k)"
      by (rule unravel_in_bounds)
    have "data ?c ! k = item ?f (unravel_index C_CONTIGUOUS (shape a) k)"
      using k sh relayout_data_nth [of k ?f C_CONTIGUOUS "\<lambda>x. x"]
      by (simp add: ascontiguousarray_def)
    also have "\<dots> = item a (unravel_index C_CONTIGUOUS (shape a) k)"
      using b by (simp add: asfortranarray_def item_relayout)
    also have "\<dots> = data a ! k"
      using k assms by (simp add: item_def ravel_unravel)
    finally show ?thesis .
  qed
  then have "data ?c = data a"
    using len by (simp add: nth_equalityI)
  then show ?thesis
    using sh assms by simp
qed

theorem order_round_trip_witness:
  "asfortranarray (\<lambda>x. x) \<lparr>shape = [2, 3], flags = C_CONTIGUOUS, data = [1, 2, 3, 4, 5, 6 :: int]\<rparr>
     = \<lparr>shape = [2, 3], flags = F_CONTIGUOUS, data = [1, 4, 2, 5, 3, 6]\<rparr> \<and>
   ascontiguousarray (\<lambda>x. x)
       \<lparr>shape = [2, 3], flags = F_CONTIGUOUS, data = [1, 4, 2, 5, 3, 6 :: int]\<rparr>
     = \<lparr>shape = [2, 3], flags = C_CONTIGUOUS, data = [1, 2, 3, 4, 5, 6]\<rparr>"
proof -
  let ?a = "\<lparr>shape = [2, 3], flags = C_CONTIGUOUS, data = [1, 2, 3, 4, 5, 6 :: int]\<rparr>"
  have there: "asfortranarray (\<lambda>x. x) ?a
      = \<lparr>shape = [2, 3], flags = F_CONTIGUOUS, data = [1, 4, 2, 5, 3, 6]\<rparr>"
    by (simp add: asfortranarray_def relayout_def item_def upt_rec)
  have "flags ?a = C_CONTIGUOUS" "length (data ?a) = prod_list (shape ?a)"
    by simp_all
  from order_round_trip [OF this] there show ?thesis
    by simp
qed

end
